theory Spec2Isabelle
  imports Main
begin

section \<open>The request facade (src/request.ts)\<close>

text \<open>
  The transport's objects are modelled as records holding the fields that the
  facade reads.  An optional or absent JavaScript property is an \<open>option\<close>;
  a JavaScript number that carries a status code is an \<open>int\<close>.  The socket's
  \<open>_httpMessage\<close> is the outbound message that Node attaches to the
  request's socket.
\<close>

record out_message =
  statusCode :: "int option"

record net_socket =
  httpMessage :: "out_message option"

record IncomingMessage =
  im_method :: "string option"
  im_url :: "string option"
  im_headers :: "string \<Rightarrow> string option"
  im_socket :: "net_socket option"

record KoaXRequest =
  rq_req :: IncomingMessage
  rq_url :: "string option"
  rq_path :: "string option"
  rq_query :: "(string \<Rightarrow> string option) option"

text \<open>\<open>new KoaXRequest(req)\<close>: only \<open>req\<close> is assigned, the caches are undefined.\<close>

definition new_KoaXRequest :: "IncomingMessage \<Rightarrow> KoaXRequest" where
  "new_KoaXRequest r = \<lparr>rq_req = r, rq_url = None, rq_path = None, rq_query = None\<rparr>"

text \<open>\<open>KoaXRequest.reset(req)\<close>\<close>

definition reset_request :: "KoaXRequest \<Rightarrow> IncomingMessage \<Rightarrow> KoaXRequest" where
  "reset_request q r = q\<lparr>rq_req := r, rq_url := None, rq_path := None, rq_query := None\<rparr>"

text \<open>
  The getter \<open>method\<close> of the facade (named \<open>request_method\<close> here):
  \<open>this.req.method || 'GET'\<close>.  The operator \<open>||\<close> takes
  its right operand when the left one is falsy: undefined or the empty string.
\<close>

definition request_method :: "KoaXRequest \<Rightarrow> string" where
  "request_method q = (case im_method (rq_req q) of
                 None \<Rightarrow> ''GET''
               | Some m \<Rightarrow> if m = [] then ''GET'' else m)"

text \<open>
  \<open>(this.req.socket as any)?._httpMessage?.statusCode\<close>: the optional chain
  gives undefined as soon as one link is absent.
\<close>

definition peekStatus :: "KoaXRequest \<Rightarrow> int option" where
  "peekStatus q = (case im_socket (rq_req q) of
                     None \<Rightarrow> None
                   | Some so \<Rightarrow> (case httpMessage so of
                                  None \<Rightarrow> None
                                | Some msg \<Rightarrow> statusCode msg))"

text \<open>\<open>peeked || 200\<close>: undefined and the number 0 are falsy.\<close>

definition statusOr200 :: "int option \<Rightarrow> int" where
  "statusOr200 p = (case p of None \<Rightarrow> 200 | Some c \<Rightarrow> if c = 0 then 200 else c)"

text \<open>\<open>get fresh()\<close> and \<open>get stale()\<close>\<close>

definition fresh :: "KoaXRequest \<Rightarrow> bool" where
  "fresh q =
     (let m = request_method q in
      if m \<noteq> ''GET'' \<and> m \<noteq> ''HEAD'' then False
      else (let s = statusOr200 (peekStatus q) in
            if (s \<ge> 200 \<and> s < 300) \<or> s = 304 then True else False))"

definition stale :: "KoaXRequest \<Rightarrow> bool" where
  "stale q = (\<not> fresh q)"

section \<open>Context and ContextPool (src/context.ts)\<close>

text \<open>
  The application object, as far as \<open>Context.reset\<close> reads it: an optional logger
  with its \<open>enabled\<close> flag.
\<close>

record app_logger =
  enabled :: bool

record KoaXApplication =
  logger :: "app_logger option"

record ServerResponse =
  res_statusCode :: int

text \<open>
  Modelled from the spec: the response facade \<open>KoaXResponse\<close> (response.ts) is not
  among the sources.  The spec says of it only that it is rebound to the new
  response on every acquisition, so the model keeps the bound response.
\<close>

record KoaXResponse =
  rs_res :: ServerResponse

definition new_KoaXResponse :: "ServerResponse \<Rightarrow> KoaXResponse" where
  "new_KoaXResponse r = \<lparr>rs_res = r\<rparr>"

definition reset_response :: "KoaXResponse \<Rightarrow> ServerResponse \<Rightarrow> KoaXResponse" where
  "reset_response p r = p\<lparr>rs_res := r\<rparr>"

text \<open>Values stored in \<open>ctx.state\<close> (a \<open>Record<string, any>\<close>).\<close>

datatype jsvalue = JUndefined | JBool bool | JNum int | JStr string

text \<open>
  The logging handle: either the child logger made by
  \<open>app.logger.child({reqId, method, url})\<close> or the application's own logger.
\<close>

datatype log_handle =
    ChildLogger string "string option" "string option"
  | AppLogger "app_logger option"

text \<open>
  The class \<open>Context\<close>.  \<open>inUse\<close> is the optional property \<open>_inUse\<close>: \<open>None\<close>
  until the pool sets it.
\<close>

record Context =
  app :: KoaXApplication
  req :: IncomingMessage
  res :: ServerResponse
  request :: KoaXRequest
  response :: KoaXResponse
  state :: "string \<Rightarrow> jsvalue option"
  inUse :: "bool option"
  log :: log_handle
  requestId :: string
  startTime :: int

text \<open>\<open>(app as any).logger?.enabled\<close>\<close>

definition loggerEnabled :: "KoaXApplication \<Rightarrow> bool" where
  "loggerEnabled a = (case logger a of None \<Rightarrow> False | Some l \<Rightarrow> enabled l)"

text \<open>
  \<open>Context.reset(app, req, res)\<close>.  The two calls into the environment are
  parameters: \<open>rid\<close> is what \<open>generateRequestId()\<close> (logger.ts, not among the
  sources) returns for this call, \<open>now\<close> is what \<open>Date.now()\<close> returns.
\<close>

definition reset ::
  "Context \<Rightarrow> KoaXApplication \<Rightarrow> IncomingMessage \<Rightarrow> ServerResponse \<Rightarrow> string \<Rightarrow> int \<Rightarrow> Context"
where
  "reset c a r s rid now =
     (let c1 = c\<lparr>app := a, req := r, res := s,
                 request := reset_request (request c) r,
                 response := reset_response (response c) s,
                 state := Map.empty\<rparr>
      in if loggerEnabled a
         then c1\<lparr>requestId := rid, startTime := now,
                 log := ChildLogger rid (im_method r) (im_url r)\<rparr>
         else c1\<lparr>requestId := [], startTime := 0, log := AppLogger (logger a)\<rparr>)"

text \<open>
  \<open>new Context(app, req, res)\<close>: the facades are constructed, then \<open>reset\<close>
  assigns every other field; the field initialiser gives \<open>state = {}\<close> and
  \<open>_inUse\<close> stays undefined.
\<close>

definition new_Context ::
  "KoaXApplication \<Rightarrow> IncomingMessage \<Rightarrow> ServerResponse \<Rightarrow> string \<Rightarrow> int \<Rightarrow> Context"
where
  "new_Context a r s rid now =
     reset \<lparr>app = a, req = r, res = s,
            request = new_KoaXRequest r, response = new_KoaXResponse s,
            state = Map.empty, inUse = None,
            log = AppLogger (logger a), requestId = [], startTime = 0\<rparr>
           a r s rid now"

text \<open>
  Context objects have identity and are mutated in place, so they live in a store:
  a list of objects, an object's address being its index.  A newly constructed
  object gets the next address.  The record \<open>ContextPool\<close> holds the three
  fields of the class together with that store; \<open>pool\<close> is the JavaScript array
  in array order (\<open>push\<close> appends, \<open>pop\<close> removes the last element).
\<close>

type_synonym addr = nat

record ContextPool =
  heap :: "Context list"
  pool :: "addr list"
  maxSize :: int
  created :: nat

text \<open>\<open>new ContextPool(maxSize)\<close>, over a store that may already hold objects.\<close>

definition new_ContextPool :: "Context list \<Rightarrow> int \<Rightarrow> ContextPool" where
  "new_ContextPool h m = \<lparr>heap = h, pool = [], maxSize = m, created = 0\<rparr>"

text \<open>
  \<open>acquire(app, req, res)\<close> returns the address of the context and the new
  state of pool and store.
\<close>

definition acquire ::
  "ContextPool \<Rightarrow> KoaXApplication \<Rightarrow> IncomingMessage \<Rightarrow> ServerResponse \<Rightarrow> string \<Rightarrow> int
     \<Rightarrow> addr \<times> ContextPool"
where
  "acquire p a r s rid now =
     (if pool p = []
      then (let c = new_Context a r s rid now;
                n = length (heap p)
            in (n, p\<lparr>heap := heap p @ [c\<lparr>inUse := Some True\<rparr>],
                     created := created p + 1\<rparr>))
      else (let x = last (pool p);
                c = reset (heap p ! x) a r s rid now
            in (x, p\<lparr>heap := (heap p)[x := c\<lparr>inUse := Some True\<rparr>],
                     pool := butlast (pool p)\<rparr>)))"

text \<open>
  \<open>release(ctx)\<close>, the context given by its address.  \<open>!ctx._inUse\<close> holds for
  undefined and for false.  An address that names no object is not a reference
  a caller can hold; the model leaves the pool as it is there.
\<close>

definition release :: "ContextPool \<Rightarrow> addr \<Rightarrow> ContextPool" where
  "release p x =
     (if \<not> x < length (heap p) then p
      else if inUse (heap p ! x) \<noteq> Some True then p
      else (let c = (heap p ! x)\<lparr>inUse := Some False\<rparr> in
            if int (length (pool p)) < maxSize p
            then p\<lparr>heap := (heap p)[x := c\<lparr>state := Map.empty\<rparr>],
                   pool := pool p @ [x]\<rparr>
            else p\<lparr>heap := (heap p)[x := c]\<rparr>))"

text \<open>\<open>getStats()\<close>\<close>

record pool_stats =
  poolSize :: nat
  stat_created :: nat
  stat_maxSize :: int

definition getStats :: "ContextPool \<Rightarrow> pool_stats" where
  "getStats p = \<lparr>poolSize = length (pool p), stat_created = created p, stat_maxSize = maxSize p\<rparr>"

text \<open>A middleware's assignment \<open>ctx.state[k] = v\<close> on the context at address \<open>x\<close>.\<close>

definition setState :: "ContextPool \<Rightarrow> addr \<Rightarrow> string \<Rightarrow> jsvalue \<Rightarrow> ContextPool" where
  "setState p x k v =
     (if x < length (heap p)
      then p\<lparr>heap := (heap p)[x := (heap p ! x)\<lparr>state := (state (heap p ! x))(k \<mapsto> v)\<rparr>]\<rparr>
      else p)"

text \<open>
  The operations that reach a pool, for sequences of them.  Running a sequence
  collects the addresses that the calls of \<open>acquire\<close> return, in order.
\<close>

datatype pool_op =
    Acquire KoaXApplication IncomingMessage ServerResponse string int
  | Release addr
  | SetState addr string jsvalue

fun step :: "ContextPool \<Rightarrow> pool_op \<Rightarrow> ContextPool" where
  "step p (Acquire a r s rid now) = snd (acquire p a r s rid now)"
| "step p (Release x) = release p x"
| "step p (SetState x k v) = setState p x k v"

definition run :: "ContextPool \<Rightarrow> pool_op list \<Rightarrow> ContextPool" where
  "run p ops = foldl step p ops"

text \<open>Releasing a list of contexts one after the other.\<close>

definition releaseAll :: "ContextPool \<Rightarrow> addr list \<Rightarrow> ContextPool" where
  "releaseAll p xs = foldl release p xs"

text \<open>
  \<open>n\<close> successive calls of \<open>acquire\<close>; call \<open>i\<close> takes its arguments from
  \<open>args i\<close>.  The result lists the returned addresses in call order.
\<close>

type_synonym acquire_args = "KoaXApplication \<times> IncomingMessage \<times> ServerResponse \<times> string \<times> int"

fun acquireMany :: "ContextPool \<Rightarrow> acquire_args list \<Rightarrow> addr list \<times> ContextPool" where
  "acquireMany p [] = ([], p)"
| "acquireMany p ((a, r, s, rid, now) # rest) =
     (let (x, p1) = acquire p a r s rid now;
          (xs, p2) = acquireMany p1 rest
      in (x # xs, p2))"

section \<open>The helper \<open>throw\<close> of the context (src/context.ts)\<close>

text \<open>
  A template literal prints an integral number in decimal, with a leading minus
  sign when it is negative.
\<close>

definition digit_char :: "nat \<Rightarrow> char" where
  "digit_char d = ''0123456789'' ! d"

function string_of_nat :: "nat \<Rightarrow> string" where
  "string_of_nat n =
     (if n < 10 then [digit_char n]
      else string_of_nat (n div 10) @ [digit_char (n mod 10)])"
  by pat_completeness auto
termination
  by (relation "measure id") auto

declare string_of_nat.simps [simp del]

definition string_of_int :: "int \<Rightarrow> string" where
  "string_of_int i =
     (if i < 0 then CHR ''-'' # string_of_nat (nat (- i)) else string_of_nat (nat i))"

text \<open>The thrown object: an \<open>Error\<close> with the two properties the helper adds.\<close>

record http_error =
  err_message :: string
  err_status :: int
  err_expose :: bool

text \<open>
  \<open>throw(status, message?)\<close>: the return type is \<open>never\<close>; the model returns a
  sum whose left injection is the thrown error.  \<open>message || ...\<close> falls back to
  the default text for an omitted and for an empty message.
\<close>

definition throw :: "int \<Rightarrow> string option \<Rightarrow> http_error + unit" where
  "throw status message =
     (let text = (case message of
                    None \<Rightarrow> ''HTTP Error '' @ string_of_int status
                  | Some m \<Rightarrow> if m = [] then ''HTTP Error '' @ string_of_int status else m)
      in Inl \<lparr>err_message = text, err_status = status, err_expose = True\<rparr>)"


section \<open>The router middleware (src/router.ts and its variant with nested routers)\<close>

text \<open>
  A compiled \<open>RegExp\<close> is taken as the function that \<open>String.match\<close> computes
  with it: \<open>None\<close> when the path does not match, otherwise the match array, whose
  element 0 is the whole match and whose element \<open>i\<close> is capture group \<open>i\<close>
  (undefined, here \<open>None\<close>, for a group that took no part).  A handler is named
  by a number.
\<close>

type_synonym match_array = "string option list"

record Route =
  rt_method :: string
  pattern :: string
  regex :: "string \<Rightarrow> match_array option"
  paramNames :: "string list"
  handler :: nat

text \<open>
  An object of type \<open>Record<string, string>\<close> is a map from property names to
  values; a property assigned \<open>undefined\<close> is present with value \<open>None\<close>.
\<close>

type_synonym params_obj = "string \<Rightarrow> string option option"

text \<open>
  The fields of the context that the router reads and writes.  \<open>ctx_request\<close> is
  \<open>None\<close> when \<open>ctx.request\<close> is falsy, otherwise it holds the \<open>params\<close>
  property of the request facade.
\<close>

record RouterContext =
  ctx_method :: string
  ctx_path :: string
  params :: "params_obj option"
  ctx_router :: "nat option"
  matched :: "nat list option"
  matchedRoute :: "string option"
  ctx_request :: "params_obj option option"

record Router =
  router_id :: nat
  routeList :: "Route list"

text \<open>Reading \<open>match[i]\<close>: undefined beyond the end of the array.\<close>

definition matchAt :: "match_array \<Rightarrow> nat \<Rightarrow> string option" where
  "matchAt m i = (if i < length m then m ! i else None)"

text \<open>
  The assignment \<open>obj[name] = v\<close> on an object made by the literal \<open>{}\<close>, for a
  value \<open>v\<close> that is a string or undefined.  Every name becomes an own property
  of the object, except \<open>__proto__\<close>: that name reaches the setter which the
  object inherits from \<open>Object.prototype\<close>, and the setter ignores a value that
  is neither an object nor null, so the object is left as it is.
\<close>

definition assignProp :: "params_obj \<Rightarrow> string \<Rightarrow> string option \<Rightarrow> params_obj" where
  "assignProp obj name v = (if name = ''__proto__'' then obj else obj(name \<mapsto> v))"

text \<open>
  \<open>route.paramNames.forEach((name, index) => { ctx.params![name] = match[index + 1] })\<close>,
  from position \<open>index\<close> on.
\<close>

fun fillParams :: "params_obj \<Rightarrow> string list \<Rightarrow> nat \<Rightarrow> match_array \<Rightarrow> params_obj" where
  "fillParams obj [] index m = obj"
| "fillParams obj (name # names) index m =
     fillParams (assignProp obj name (matchAt m (index + 1))) names (index + 1) m"

text \<open>What the middleware does last: run the handler of a route or call \<open>next\<close>.\<close>

datatype route_action = RunHandler nat | CallNext

text \<open>The \<open>for\<close> loop of \<open>routes()\<close> in src/router.ts.\<close>

fun matchLoop :: "Route list \<Rightarrow> RouterContext \<Rightarrow> RouterContext \<times> route_action" where
  "matchLoop [] ctx = (ctx, CallNext)"
| "matchLoop (route # rest) ctx =
     (if rt_method route \<noteq> ctx_method ctx then matchLoop rest ctx
      else (case regex route (ctx_path ctx) of
              None \<Rightarrow> matchLoop rest ctx
            | Some m \<Rightarrow>
                (let ctx1 = (if length (paramNames route) > 0
                             then ctx\<lparr>params := Some (fillParams Map.empty (paramNames route) 0 m)\<rparr>
                             else ctx)
                 in (ctx1, RunHandler (handler route)))))"

text \<open>
  The middleware returned by \<open>routes()\<close> in src/router.ts, up to the point where
  it hands the context to the handler or to \<open>next\<close>.
\<close>

definition routes :: "Router \<Rightarrow> RouterContext \<Rightarrow> RouterContext \<times> route_action" where
  "routes router ctx = matchLoop (routeList router) (ctx\<lparr>params := None\<rparr>)"

text \<open>The loop of the variant with nested routers.\<close>

fun matchLoopNested :: "Route list \<Rightarrow> RouterContext \<Rightarrow> RouterContext \<times> route_action" where
  "matchLoopNested [] ctx = (ctx, CallNext)"
| "matchLoopNested (route # rest) ctx =
     (if rt_method route \<noteq> ctx_method ctx then matchLoopNested rest ctx
      else (case regex route (ctx_path ctx) of
              None \<Rightarrow> matchLoopNested rest ctx
            | Some m \<Rightarrow>
                (let ctx1 = ctx\<lparr>matchedRoute := Some (pattern route)\<rparr>;
                     ctx2 = (if length (paramNames route) > 0
                             then ctx1\<lparr>params := Some (fillParams Map.empty (paramNames route) 0 m)\<rparr>
                             else ctx1);
                     ctx3 = (case ctx_request ctx2 of
                               None \<Rightarrow> ctx2
                             | Some _ \<Rightarrow> ctx2\<lparr>ctx_request := Some (params ctx2)\<rparr>)
                 in (ctx3, RunHandler (handler route)))))"

text \<open>The middleware returned by \<open>routes()\<close> in the variant with nested routers.\<close>

definition routesNested :: "Router \<Rightarrow> RouterContext \<Rightarrow> RouterContext \<times> route_action" where
  "routesNested router ctx =
     (let ctx1 = ctx\<lparr>params := None\<rparr>;
          ctx2 = ctx1\<lparr>ctx_router := Some (router_id router)\<rparr>;
          ctx3 = (case matched ctx2 of None \<Rightarrow> ctx2\<lparr>matched := Some []\<rparr> | Some _ \<Rightarrow> ctx2)
      in matchLoopNested (routeList router) ctx3)"

text \<open>
  The first route of the list that matches a request: its method is the
  request's and its expression matches the path.
\<close>

definition routeMatches :: "string \<Rightarrow> string \<Rightarrow> Route \<Rightarrow> bool" where
  "routeMatches m p route = (rt_method route = m \<and> regex route p \<noteq> None)"

definition firstMatch :: "Route list \<Rightarrow> string \<Rightarrow> string \<Rightarrow> Route option" where
  "firstMatch rs m p = find (routeMatches m p) rs"

section \<open>The dispatcher\<close>

text \<open>
  Modelled from the spec: the dispatcher (the middleware composer of the
  application) is not among the sources, so it is defined from the words of the
  spec's section 4.2.  A middleware body is a sequence of statements: \<open>Emit e\<close>
  is an observable action of the body (it appends \<open>e\<close> to the trace), \<open>Next\<close>
  invokes \<open>next()\<close> and waits for it, \<open>Throw x\<close> raises an error.
\<close>

datatype dispatch_error = MultipleNextInvocationError | MiddlewareError string

datatype 'e stmt = Emit 'e | Next | Throw string

type_synonym 'e middleware = "'e stmt list"

text \<open>
  Modelled from the spec: \<open>exec ms called body t\<close> runs the rest \<open>body\<close> of a
  middleware whose downstream chain is \<open>ms\<close>; \<open>called\<close> tells whether this
  invocation has already invoked \<open>next\<close>.  "If it invokes next, control passes
  to middleware i+1; once middleware i+1's full execution completes, control
  resumes after the next call"; "if the list is exhausted, next is a no-op";
  a second \<open>next\<close> in one invocation signals \<open>MultipleNextInvocationError\<close>;
  a failure propagates to the caller and nothing runs after it.  The result is
  the trace together with the failure, if any.
\<close>

fun exec ::
  "'e middleware list \<Rightarrow> bool \<Rightarrow> 'e stmt list \<Rightarrow> 'e list \<Rightarrow> 'e list \<times> dispatch_error option"
where
  "exec ms called [] t = (t, None)"
| "exec ms called (Emit e # body) t = exec ms called body (t @ [e])"
| "exec ms called (Throw x # body) t = (t, Some (MiddlewareError x))"
| "exec ms called (Next # body) t =
     (if called then (t, Some MultipleNextInvocationError)
      else (case ms of
              [] \<Rightarrow> exec [] True body t
            | m # rest \<Rightarrow>
                (case exec rest False m t of
                   (t1, Some err) \<Rightarrow> (t1, Some err)
                 | (t1, None) \<Rightarrow> exec (m # rest) True body t1)))"

text \<open>
  Modelled from the spec: the composed execution of a middleware list starts
  with the first middleware, on the trace so far.
\<close>

definition dispatch :: "'e middleware list \<Rightarrow> 'e list \<Rightarrow> 'e list \<times> dispatch_error option" where
  "dispatch ms t = (case ms of [] \<Rightarrow> (t, None) | m # rest \<Rightarrow> exec rest False m t)"


text \<open>The events of the onion-order test.\<close>

datatype event = Enter nat | Exit nat

section \<open>Example objects\<close>

definition demoApp :: KoaXApplication where
  "demoApp = \<lparr>logger = Some \<lparr>enabled = True\<rparr>\<rparr>"


definition demoReq :: IncomingMessage where
  "demoReq = \<lparr>im_method = Some ''GET'', im_url = Some ''/'', im_headers = Map.empty,
               im_socket = None\<rparr>"

definition demoRes :: ServerResponse where
  "demoRes = \<lparr>res_statusCode = 200\<rparr>"

text \<open>A GET request whose socket carries an outbound message with status code 0.\<close>

definition zeroStatusRequest :: KoaXRequest where
  "zeroStatusRequest =
     new_KoaXRequest \<lparr>im_method = Some ''GET'', im_url = Some ''/'', im_headers = Map.empty,
                      im_socket = Some \<lparr>httpMessage = Some \<lparr>statusCode = Some 0\<rparr>\<rparr>\<rparr>"

text \<open>A pool of capacity 2 after three acquisitions: the contexts 0, 1 and 2 are in use.\<close>

definition threeAcquired :: ContextPool where
  "threeAcquired =
     run (new_ContextPool [] 2)
       [Acquire demoApp demoReq demoRes ''a'' 1,
        Acquire demoApp demoReq demoRes ''b'' 2,
        Acquire demoApp demoReq demoRes ''c'' 3]"

text \<open>
  A pool of capacity 1 whose free-list is full: context 0 was released into it,
  context 1 is still in use and holds a value in its state map.
\<close>

definition fullPoolInUse :: ContextPool where
  "fullPoolInUse =
     run (new_ContextPool [] 1)
       [Acquire demoApp demoReq demoRes ''a'' 1,
        Acquire demoApp demoReq demoRes ''b'' 2,
        SetState 1 ''user'' (JStr ''alice''),
        Release 0]"


text \<open>Request A holds context 0 of a pool of capacity 4.\<close>

definition requestA :: ContextPool where
  "requestA = run (new_ContextPool [] 4) [Acquire demoApp demoReq demoRes ''a'' 1]"

definition demoArgs :: acquire_args where
  "demoArgs = (demoApp, demoReq, demoRes, ''n'', 9)"

text \<open>
  Every entry of the free-list refers to an object of the store.  References
  are never dangling in the program, so this holds in every state it reaches.
\<close>

definition refsValid :: "ContextPool \<Rightarrow> bool" where
  "refsValid p = (\<forall>y \<in> set (pool p). y < length (heap p))"






text \<open>A HEAD request with a conditional header whose outbound message has status 304.\<close>

definition notModifiedRequest :: KoaXRequest where
  "notModifiedRequest =
     new_KoaXRequest \<lparr>im_method = Some ''HEAD'', im_url = Some ''/'',
                      im_headers = [''if-none-match'' \<mapsto> ''abc''],
                      im_socket = Some \<lparr>httpMessage = Some \<lparr>statusCode = Some 304\<rparr>\<rparr>\<rparr>"

text \<open>
  The matcher of the expression \<open>^/users/([^/]+)$\<close>, which \<open>pathToRegex\<close>
  builds for the pattern \<open>/users/:id\<close>; a router with two routes on it; and a
  pooled context that still carries the parameters of an earlier request.
\<close>

definition usersIdRegex :: "string \<Rightarrow> match_array option" where
  "usersIdRegex path =
     (if take 7 path = ''/users/'' \<and> drop 7 path \<noteq> [] \<and> CHR ''/'' \<notin> set (drop 7 path)
      then Some [Some path, Some (drop 7 path)] else None)"

definition demoRouter :: Router where
  "demoRouter =
     \<lparr>router_id = 1,
      routeList =
        [\<lparr>rt_method = ''POST'', pattern = ''/users/:id'', regex = usersIdRegex,
          paramNames = [''id''], handler = 10\<rparr>,
         \<lparr>rt_method = ''GET'', pattern = ''/users/:id'', regex = usersIdRegex,
          paramNames = [''id''], handler = 11\<rparr>]\<rparr>"

definition pooledCtx :: RouterContext where
  "pooledCtx =
     \<lparr>ctx_method = ''GET'', ctx_path = ''/users/42'',
      params = Some [''id'' \<mapsto> Some ''7'', ''tab'' \<mapsto> Some ''posts''],
      ctx_router = None, matched = None, matchedRoute = None, ctx_request = Some None\<rparr>"

text \<open>
  The second request on the pooled context: the first request, GET /users/42,
  has gone through the middleware of the nested-router variant; the context is
  then reused for a request whose path matches no route.  Neither
  \<open>Context.reset\<close> nor \<open>KoaXRequest.reset\<close> touches the fields that the
  router wrote.
\<close>

definition secondRequestCtx :: RouterContext where
  "secondRequestCtx = (fst (routesNested demoRouter pooledCtx))\<lparr>ctx_path := ''/nomatch''\<rparr>"

text \<open>
  The matcher of the expression \<open>^/([^/]+)$\<close>, which \<open>pathToRegex\<close> builds for
  the pattern \<open>/:__proto__\<close> together with the parameter names
  \<open>["__proto__"]\<close>; a router with that route; and a request for \<open>/abc\<close>.
\<close>

definition oneSegmentRegex :: "string \<Rightarrow> match_array option" where
  "oneSegmentRegex path =
     (if take 1 path = ''/'' \<and> drop 1 path \<noteq> [] \<and> CHR ''/'' \<notin> set (drop 1 path)
      then Some [Some path, Some (drop 1 path)] else None)"

definition protoRouter :: Router where
  "protoRouter =
     \<lparr>router_id = 2,
      routeList =
        [\<lparr>rt_method = ''GET'', pattern = ''/:__proto__'', regex = oneSegmentRegex,
          paramNames = [''__proto__''], handler = 20\<rparr>]\<rparr>"

definition protoCtx :: RouterContext where
  "protoCtx =
     \<lparr>ctx_method = ''GET'', ctx_path = ''/abc'', params = None,
      ctx_router = None, matched = None, matchedRoute = None, ctx_request = Some None\<rparr>"

section \<open>Properties of the request facade\<close>

text \<open>
  Claim C9, as the code has it.  \<open>fresh\<close> is true exactly when the method that the
  facade reports is GET or HEAD and the status code peeked from the socket's
  outbound message is absent or 0 (both are then taken as 200) or lies in
  200..299 or is 304.  The request headers play no part: replacing them leaves
  \<open>fresh\<close> unchanged.  \<open>stale\<close> is the negation of \<open>fresh\<close>.
\<close>

theorem fresh_iff:
  "(fresh q \<longleftrightarrow>
      (request_method q = ''GET'' \<or> request_method q = ''HEAD'')
      \<and> (peekStatus q = None \<or> peekStatus q = Some 0
         \<or> (\<exists>c. peekStatus q = Some c \<and> ((200 \<le> c \<and> c \<le> 299) \<or> c = 304))))
   \<and> fresh (q\<lparr>rq_req := (rq_req q)\<lparr>im_headers := h\<rparr>\<rparr>) = fresh q
   \<and> stale q = (\<not> fresh q)"
  by (auto simp: fresh_def stale_def statusOr200_def request_method_def peekStatus_def Let_def
      split: option.splits)

theorem fresh_iff_witness:
  "request_method notModifiedRequest = ''HEAD'' \<and> peekStatus notModifiedRequest = Some 304
   \<and> fresh notModifiedRequest \<and> \<not> stale notModifiedRequest"
  using fresh_iff [of notModifiedRequest Map.empty]
  by (simp add: notModifiedRequest_def new_KoaXRequest_def request_method_def peekStatus_def)

text \<open>
  Claim C9 as stated fails where the peeked status code is present and is 0: the
  code is not in 200..299 and is not 304, yet \<open>fresh\<close> is true.
\<close>

theorem fresh_status_zero_counterexample:
  "request_method zeroStatusRequest = ''GET'' \<and> peekStatus zeroStatusRequest = Some 0
   \<and> fresh zeroStatusRequest = True"
  by (simp add: zeroStatusRequest_def new_KoaXRequest_def request_method_def peekStatus_def fresh_def
      statusOr200_def)

section \<open>Properties of \<open>throw\<close>\<close>

text \<open>
  Claim C8, as the code has it.  \<open>throw(status, message)\<close> never returns
  normally; the error it raises carries the given status and, when a non-empty
  message is given, that message; an omitted message and an empty message both
  give the text "HTTP Error" followed by the status.
\<close>

theorem throw_raises:
  "throw status None =
     Inl \<lparr>err_message = ''HTTP Error '' @ string_of_int status, err_status = status, err_expose = True\<rparr>
   \<and> throw status (Some []) =
     Inl \<lparr>err_message = ''HTTP Error '' @ string_of_int status, err_status = status, err_expose = True\<rparr>
   \<and> (m \<noteq> [] \<longrightarrow>
        throw status (Some m) = Inl \<lparr>err_message = m, err_status = status, err_expose = True\<rparr>)
   \<and> (\<forall>r. throw status message \<noteq> Inr r)"
  by (cases message) (simp_all add: throw_def Let_def)

theorem throw_raises_witness:
  "''teapot'' \<noteq> [] \<and>
   throw 418 (Some ''teapot'') = Inl \<lparr>err_message = ''teapot'', err_status = 418, err_expose = True\<rparr>
   \<and> throw 418 None = Inl \<lparr>err_message = ''HTTP Error 418'', err_status = 418, err_expose = True\<rparr>"
  using throw_raises [of 418 "''teapot''" None]
  by (simp add: string_of_int_def string_of_nat.simps digit_char_def)

text \<open>
  Claim C8 as stated fails for the empty message: the error does not carry the
  given message but the default text.
\<close>

theorem throw_empty_message_counterexample:
  "throw 400 (Some []) = Inl \<lparr>err_message = ''HTTP Error 400'', err_status = 400, err_expose = True\<rparr>"
  by (simp add: throw_def string_of_int_def string_of_nat.simps digit_char_def)

section \<open>Properties of the context pool\<close>

subsection \<open>What each operation does to the fields\<close>

lemmas demo_defs = run_def releaseAll_def new_ContextPool_def acquire_def
      release_def setState_def Let_def new_Context_def reset_def

lemma release_pool:
  "pool (release p x) =
     (if x < length (heap p) \<and> inUse (heap p ! x) = Some True \<and> int (length (pool p)) < maxSize p
      then pool p @ [x] else pool p)"
  by (simp add: release_def Let_def)

lemma release_maxSize [simp]: "maxSize (release p x) = maxSize p"
  by (simp add: release_def Let_def)

lemma release_created [simp]: "created (release p x) = created p"
  by (simp add: release_def Let_def)

lemma release_length_heap [simp]: "length (heap (release p x)) = length (heap p)"
  by (simp add: release_def Let_def)

lemma acquire_pool [simp]: "pool (snd (acquire p a r s rid now)) = butlast (pool p)"
  by (simp add: acquire_def Let_def)

lemma acquire_maxSize [simp]: "maxSize (snd (acquire p a r s rid now)) = maxSize p"
  by (simp add: acquire_def Let_def)

lemma acquire_created:
  "created (snd (acquire p a r s rid now)) = (if pool p = [] then created p + 1 else created p)"
  by (simp add: acquire_def Let_def)

lemma acquire_length_heap:
  "length (heap (snd (acquire p a r s rid now))) =
     (if pool p = [] then Suc (length (heap p)) else length (heap p))"
  by (simp add: acquire_def Let_def)

lemma acquire_fst:
  "fst (acquire p a r s rid now) = (if pool p = [] then length (heap p) else last (pool p))"
  by (simp add: acquire_def Let_def)

lemma setState_pool [simp]: "pool (setState p x k v) = pool p"
  by (simp add: setState_def)

lemma setState_maxSize [simp]: "maxSize (setState p x k v) = maxSize p"
  by (simp add: setState_def)

lemma setState_created [simp]: "created (setState p x k v) = created p"
  by (simp add: setState_def)

lemma setState_length_heap [simp]: "length (heap (setState p x k v)) = length (heap p)"
  by (simp add: setState_def)

lemma step_maxSize [simp]: "maxSize (step p opn) = maxSize p"
  by (cases opn) simp_all

subsection \<open>The bound on the free-list\<close>

lemma step_bounded:
  "int (length (pool p)) \<le> maxSize p \<Longrightarrow> int (length (pool (step p opn))) \<le> maxSize (step p opn)"
  by (cases opn) (auto simp: release_pool)

lemma run_bounded:
  "int (length (pool p)) \<le> maxSize p \<Longrightarrow>
     int (length (pool (run p ops))) \<le> maxSize (run p ops) \<and> maxSize (run p ops) = maxSize p"
  unfolding run_def
proof (induction ops arbitrary: p)
  case Nil
  then show ?case by simp
next
  case (Cons opn ops)
  from Cons.prems have "int (length (pool (step p opn))) \<le> maxSize (step p opn)"
    by (rule step_bounded)
  from Cons.IH [OF this] show ?case by simp
qed

lemma releaseAll_bounded:
  "int (length (pool p)) \<le> maxSize p \<Longrightarrow>
     int (length (pool (releaseAll p xs))) \<le> maxSize p \<and> maxSize (releaseAll p xs) = maxSize p"
  unfolding releaseAll_def
proof (induction xs arbitrary: p)
  case Nil
  then show ?case by simp
next
  case (Cons x xs)
  from Cons.prems have "int (length (pool (release p x))) \<le> maxSize (release p x)"
    by (auto simp: release_pool)
  from Cons.IH [OF this] show ?case by simp
qed

text \<open>
  Claim C5.  The free-list never holds more than \<open>maxSize\<close> contexts: every
  sequence of pool operations (acquisitions, releases, and writes to a context's
  state in between) keeps the bound once it holds, and so does releasing any
  list of contexts, however long, with none acquired again.  The bound holds in
  a pool constructed with a capacity that is not negative, hence in every state
  such a pool reaches.
\<close>

theorem pool_bound_invariant:
  "(int (length (pool p)) \<le> maxSize p \<longrightarrow>
      int (length (pool (run p ops))) \<le> maxSize (run p ops)
      \<and> int (length (pool (releaseAll p xs))) \<le> maxSize (releaseAll p xs))
   \<and> (0 \<le> m \<longrightarrow>
      int (length (pool (run (new_ContextPool h m) ops))) \<le> m
      \<and> int (length (pool (releaseAll (run (new_ContextPool h m) ops) xs))) \<le> m)"
proof (intro conjI impI)
  assume b: "int (length (pool p)) \<le> maxSize p"
  show "int (length (pool (run p ops))) \<le> maxSize (run p ops)"
    using run_bounded [OF b, of ops] by simp
  show "int (length (pool (releaseAll p xs))) \<le> maxSize (releaseAll p xs)"
    using releaseAll_bounded [OF b, of xs] by simp
next
  assume m: "0 \<le> m"
  have b: "int (length (pool (new_ContextPool h m))) \<le> maxSize (new_ContextPool h m)"
    using m by (simp add: new_ContextPool_def)
  have ms: "maxSize (new_ContextPool h m) = m"
    by (simp add: new_ContextPool_def)
  show r: "int (length (pool (run (new_ContextPool h m) ops))) \<le> m"
    using run_bounded [OF b, of ops] ms by simp
  have "maxSize (run (new_ContextPool h m) ops) = m"
    using run_bounded [OF b, of ops] ms by simp
  with r have "int (length (pool (run (new_ContextPool h m) ops)))
      \<le> maxSize (run (new_ContextPool h m) ops)" by simp
  from releaseAll_bounded [OF this, of xs] \<open>maxSize (run (new_ContextPool h m) ops) = m\<close>
  show "int (length (pool (releaseAll (run (new_ContextPool h m) ops) xs))) \<le> m"
    by simp
qed

theorem pool_bound_invariant_witness:
  "int (length (pool threeAcquired)) \<le> maxSize threeAcquired
   \<and> maxSize threeAcquired = 2
   \<and> int (length (pool (releaseAll threeAcquired [0, 1, 2]))) \<le> 2
   \<and> (0::int) \<le> 2
   \<and> int (length (pool (run (new_ContextPool [] 2) []))) \<le> 2"
proof -
  have b: "int (length (pool threeAcquired)) \<le> maxSize threeAcquired"
    by (simp add: threeAcquired_def demo_defs)
  have m: "maxSize threeAcquired = 2"
    by (simp add: threeAcquired_def demo_defs)
  have z: "maxSize (releaseAll threeAcquired [0, 1, 2]) = 2"
    by (simp add: threeAcquired_def demo_defs)
  show ?thesis
    using b m z
      pool_bound_invariant [of threeAcquired "[]" "[0, 1, 2]" 2 "[]"]
    by simp
qed

subsection \<open>Release\<close>

lemma release_heap_other: "y \<noteq> x \<Longrightarrow> heap (release p x) ! y = heap p ! y"
  by (simp add: release_def Let_def)

lemma release_heap_self:
  "x < length (heap p) \<Longrightarrow> inUse (heap p ! x) = Some True \<Longrightarrow>
   heap (release p x) ! x =
     (if int (length (pool p)) < maxSize p
      then (heap p ! x)\<lparr>inUse := Some False, state := Map.empty\<rparr>
      else (heap p ! x)\<lparr>inUse := Some False\<rparr>)"
  by (simp add: release_def Let_def)

text \<open>
  Claim C4, as the code has it.  Releasing a context that is not in use changes
  nothing.  Releasing a context that is in use marks it not in use and leaves
  the counters and every other context alone; when the free-list is below
  \<open>maxSize\<close> the context's state map is cleared and the context is pushed onto
  the free-list; otherwise the free-list stays as it is, the context is not
  retained and its state map is left as it was.
\<close>

theorem release_effect:
  "x < length (heap p) \<Longrightarrow>
   (inUse (heap p ! x) \<noteq> Some True \<longrightarrow> release p x = p)
   \<and> (inUse (heap p ! x) = Some True \<longrightarrow>
        created (release p x) = created p
        \<and> maxSize (release p x) = maxSize p
        \<and> (\<forall>y. y \<noteq> x \<longrightarrow> heap (release p x) ! y = heap p ! y)
        \<and> (int (length (pool p)) < maxSize p \<longrightarrow>
             pool (release p x) = pool p @ [x]
             \<and> heap (release p x) ! x = (heap p ! x)\<lparr>inUse := Some False, state := Map.empty\<rparr>)
        \<and> (\<not> int (length (pool p)) < maxSize p \<longrightarrow>
             pool (release p x) = pool p
             \<and> heap (release p x) ! x = (heap p ! x)\<lparr>inUse := Some False\<rparr>))"
  by (simp add: release_heap_other release_heap_self release_pool) (simp add: release_def)

theorem release_effect_witness:
  "(1::nat) < length (heap fullPoolInUse) \<and> inUse (heap fullPoolInUse ! 1) = Some True
   \<and> \<not> int (length (pool fullPoolInUse)) < maxSize fullPoolInUse
   \<and> pool (release fullPoolInUse 1) = [0]
   \<and> inUse (heap (release fullPoolInUse 1) ! 1) = Some False
   \<and> inUse (heap fullPoolInUse ! 0) \<noteq> Some True
   \<and> release fullPoolInUse 0 = fullPoolInUse"
  using release_effect [of 1 fullPoolInUse] release_effect [of 0 fullPoolInUse]
  by (simp add: fullPoolInUse_def demo_defs)

text \<open>
  Claim C4 as stated fails for a context released while the free-list is full:
  its state map is not cleared.
\<close>

theorem release_keeps_state_counterexample:
  "inUse (heap fullPoolInUse ! 1) = Some True
   \<and> state (heap (release fullPoolInUse 1) ! 1) ''user'' = Some (JStr ''alice'')"
  by (simp add: fullPoolInUse_def demo_defs)

subsection \<open>Acquire\<close>

lemma acquire_returns_object:
  "refsValid p \<Longrightarrow> fst (acquire p a r s rid now) < length (heap (snd (acquire p a r s rid now)))"
  by (auto simp: refsValid_def acquire_def Let_def)

lemma acquire_context:
  "refsValid p \<Longrightarrow>
   heap (snd (acquire p a r s rid now)) ! fst (acquire p a r s rid now) =
     (if pool p = [] then (new_Context a r s rid now)\<lparr>inUse := Some True\<rparr>
      else (reset (heap p ! last (pool p)) a r s rid now)\<lparr>inUse := Some True\<rparr>)"
  by (auto simp: refsValid_def acquire_def Let_def)

lemma reset_fields:
  "app (reset c a r s rid now) = a"
  "req (reset c a r s rid now) = r"
  "res (reset c a r s rid now) = s"
  "rq_req (request (reset c a r s rid now)) = r"
  "rs_res (response (reset c a r s rid now)) = s"
  "state (reset c a r s rid now) = Map.empty"
  "requestId (reset c a r s rid now) = (if loggerEnabled a then rid else [])"
  "startTime (reset c a r s rid now) = (if loggerEnabled a then now else 0)"
  by (simp_all add: reset_def Let_def reset_request_def reset_response_def)

lemma acquire_fields:
  assumes "refsValid p" and "acquire p a r s rid now = (x, q)"
  shows "x < length (heap q)
     \<and> app (heap q ! x) = a \<and> req (heap q ! x) = r \<and> res (heap q ! x) = s
     \<and> rq_req (request (heap q ! x)) = r \<and> rs_res (response (heap q ! x)) = s
     \<and> state (heap q ! x) = Map.empty
     \<and> inUse (heap q ! x) = Some True
     \<and> requestId (heap q ! x) = (if loggerEnabled a then rid else [])
     \<and> startTime (heap q ! x) = (if loggerEnabled a then now else 0)"
proof -
  from assms(2) have x: "x = fst (acquire p a r s rid now)" and q: "q = snd (acquire p a r s rid now)"
    by simp_all
  have obj: "x < length (heap q)"
    unfolding x q using assms(1) by (rule acquire_returns_object)
  have c: "heap q ! x =
     (if pool p = [] then (new_Context a r s rid now)\<lparr>inUse := Some True\<rparr>
      else (reset (heap p ! last (pool p)) a r s rid now)\<lparr>inUse := Some True\<rparr>)"
    unfolding x q using assms(1) by (rule acquire_context)
  show ?thesis
    using obj by (simp add: c new_Context_def reset_fields)
qed


















subsection \<open>State isolation\<close>

lemma step_refsValid: "refsValid p \<Longrightarrow> refsValid (step p opn)"
proof (cases opn)
  case (Acquire a r s rid now)
  assume v: "refsValid p"
  show ?thesis
    using v by (auto simp: Acquire refsValid_def acquire_length_heap dest: in_set_butlastD)
next
  case (Release x)
  assume "refsValid p"
  then show ?thesis
    by (auto simp: Release refsValid_def release_pool split: if_splits)
next
  case (SetState x k v)
  assume "refsValid p"
  then show ?thesis
    by (simp add: SetState refsValid_def)
qed

lemma run_refsValid: "refsValid p \<Longrightarrow> refsValid (run p ops)"
  unfolding run_def
  by (induction ops arbitrary: p) (simp_all add: step_refsValid)

text \<open>
  Claim C6.  Request A writes a value under a key of its context's state map and
  the context is released.  After any sequence of pool operations (further
  acquisitions, releases, and writes through references that are still held),
  if an acquisition returns that same object, its state map is empty: the key
  written by A is not visible.
\<close>

theorem state_isolation:
  assumes "refsValid p"
    and "acquire (run (release (setState p x k v) x) ops) a r s rid now = (x, q)"
  shows "state (heap q ! x) = Map.empty \<and> state (heap q ! x) k = None"
proof -
  have "refsValid (setState p x k v)"
    using assms(1) step_refsValid [of p "SetState x k v"] by simp
  then have "refsValid (release (setState p x k v) x)"
    using step_refsValid [of "setState p x k v" "Release x"] by simp
  then have v: "refsValid (run (release (setState p x k v) x) ops)"
    by (rule run_refsValid)
  from acquire_fields [OF v assms(2)] show ?thesis by simp
qed

theorem state_isolation_witness:
  "refsValid requestA
   \<and> state (heap (setState requestA 0 ''user'' (JStr ''alice'')) ! 0) ''user'' = Some (JStr ''alice'')
   \<and> acquire (run (release (setState requestA 0 ''user'' (JStr ''alice'')) 0)
         [Acquire demoApp demoReq demoRes ''b'' 2, SetState 0 ''user'' (JStr ''bob''), Release 0])
         demoApp demoReq demoRes ''c'' 3
      = (0, snd (acquire (run (release (setState requestA 0 ''user'' (JStr ''alice'')) 0)
         [Acquire demoApp demoReq demoRes ''b'' 2, SetState 0 ''user'' (JStr ''bob''), Release 0])
         demoApp demoReq demoRes ''c'' 3))
   \<and> state (heap (snd (acquire (run (release (setState requestA 0 ''user'' (JStr ''alice'')) 0)
         [Acquire demoApp demoReq demoRes ''b'' 2, SetState 0 ''user'' (JStr ''bob''), Release 0])
         demoApp demoReq demoRes ''c'' 3)) ! 0) ''user'' = None"
proof -
  have v: "refsValid requestA"
    by (simp add: refsValid_def requestA_def demo_defs)
  have w: "state (heap (setState requestA 0 ''user'' (JStr ''alice'')) ! 0) ''user'' = Some (JStr ''alice'')"
    by (simp add: requestA_def demo_defs)
  have e: "acquire (run (release (setState requestA 0 ''user'' (JStr ''alice'')) 0)
         [Acquire demoApp demoReq demoRes ''b'' 2, SetState 0 ''user'' (JStr ''bob''), Release 0])
         demoApp demoReq demoRes ''c'' 3
      = (0, snd (acquire (run (release (setState requestA 0 ''user'' (JStr ''alice'')) 0)
         [Acquire demoApp demoReq demoRes ''b'' 2, SetState 0 ''user'' (JStr ''bob''), Release 0])
         demoApp demoReq demoRes ''c'' 3))"
    by (simp add: requestA_def demo_defs)
  show ?thesis
    using v w e state_isolation [OF v e] by simp
qed

subsection \<open>Reuse of released contexts\<close>

lemma releaseAll_Cons: "releaseAll p (x # xs) = releaseAll (release p x) xs"
  by (simp add: releaseAll_def)

lemma releaseAll_created [simp]: "created (releaseAll p xs) = created p"
  by (induction xs arbitrary: p) (simp_all add: releaseAll_def)

lemma releaseAll_length_heap [simp]: "length (heap (releaseAll p xs)) = length (heap p)"
  by (induction xs arbitrary: p) (simp_all add: releaseAll_def)

lemma releaseAll_pool:
  "distinct xs \<Longrightarrow> \<forall>x \<in> set xs. x < length (heap p) \<and> inUse (heap p ! x) = Some True \<Longrightarrow>
   pool (releaseAll p xs) = pool p @ take (nat (maxSize p - int (length (pool p)))) xs"
proof (induction xs arbitrary: p)
  case Nil
  then show ?case by (simp add: releaseAll_def)
next
  case (Cons x xs)
  have d: "distinct xs" using Cons.prems(1) by simp
  have u: "\<forall>y \<in> set xs. y < length (heap (release p x)) \<and> inUse (heap (release p x) ! y) = Some True"
  proof
    fix y assume y: "y \<in> set xs"
    then have "y \<noteq> x" using Cons.prems(1) by auto
    then show "y < length (heap (release p x)) \<and> inUse (heap (release p x) ! y) = Some True"
      using Cons.prems(2) y by (simp add: release_heap_other)
  qed
  have x: "x < length (heap p)" "inUse (heap p ! x) = Some True"
    using Cons.prems(2) by simp_all
  show ?case
  proof (cases "int (length (pool p)) < maxSize p")
    case True
    then have pl: "pool (release p x) = pool p @ [x]"
      using x by (simp add: release_pool)
    from True obtain j where j: "nat (maxSize p - int (length (pool p))) = Suc j"
      by (cases "nat (maxSize p - int (length (pool p)))") auto
    then have j': "nat (maxSize p - int (length (pool p @ [x]))) = j"
      by simp
    show ?thesis
      using Cons.IH [OF d u] by (simp add: releaseAll_Cons pl j j' del: length_append)
  next
    case False
    then have pl: "pool (release p x) = pool p"
      by (simp add: release_pool)
    from False have "nat (maxSize p - int (length (pool p))) = 0" by simp
    then show ?thesis
      using Cons.IH [OF d u] by (simp add: releaseAll_Cons pl)
  qed
qed

lemma acquireMany_Cons:
  "acquireMany p ((a, r, s, rid, now) # rest) =
     (fst (acquire p a r s rid now) # fst (acquireMany (snd (acquire p a r s rid now)) rest),
      snd (acquireMany (snd (acquire p a r s rid now)) rest))"
  by (simp add: split_beta Let_def)

lemma acquireMany_pops:
  "length args \<le> length (pool p) \<Longrightarrow>
   fst (acquireMany p args) = take (length args) (rev (pool p))
   \<and> created (snd (acquireMany p args)) = created p
   \<and> length (heap (snd (acquireMany p args))) = length (heap p)
   \<and> pool (snd (acquireMany p args)) = take (length (pool p) - length args) (pool p)"
proof (induction args arbitrary: p)
  case Nil
  then show ?case by simp
next
  case (Cons arg args)
  obtain a r s rid now where arg: "arg = (a, r, s, rid, now)"
    by (cases arg) auto
  from Cons.prems have ne: "pool p \<noteq> []" by auto
  let ?q = "snd (acquire p a r s rid now)"
  have len: "length args \<le> length (pool ?q)"
    using Cons.prems by simp
  have rv: "rev (pool p) = last (pool p) # rev (butlast (pool p))"
    using ne by (metis append_butlast_last_id rev.simps(2) rev_rev_ident rev_swap)
  have tk: "take (length (pool p) - Suc (length args)) (butlast (pool p))
      = take (length (pool p) - Suc (length args)) (pool p)"
    by (simp add: butlast_conv_take min_def)
  show ?case
    using Cons.IH [OF len] ne
    by (simp add: arg acquireMany_Cons acquire_fst acquire_created acquire_length_heap rv tk
        del: acquireMany.simps)
qed

text \<open>
  Claim C3, as the code has it.  Let \<open>N\<close> distinct in-use contexts be released
  one after the other into a pool whose free-list respects its bound, with
  \<open>N \<le> maxSize\<close>.  The next \<open>N\<close> acquisitions pop the last \<open>N\<close> entries of
  the free-list, most recent first: they return objects that exist already, and
  neither the creation counter nor the number of objects changes.  When the
  free-list had room for all \<open>N\<close> contexts, the acquisitions return exactly the
  released contexts, most recently released first.  A single acquisition
  constructs a new object and increments \<open>created\<close> exactly when the free-list
  is empty; otherwise it returns the last entry of the free-list.
\<close>

theorem pool_reuse:
  assumes "distinct xs"
    and "\<forall>x \<in> set xs. x < length (heap p) \<and> inUse (heap p ! x) = Some True"
    and "int (length (pool p)) \<le> maxSize p"
    and "int (length xs) \<le> maxSize p"
    and "length args = length xs"
  shows "fst (acquireMany (releaseAll p xs) args) = take (length xs) (rev (pool (releaseAll p xs)))
     \<and> created (snd (acquireMany (releaseAll p xs) args)) = created p
     \<and> length (heap (snd (acquireMany (releaseAll p xs) args))) = length (heap p)
     \<and> (int (length (pool p)) + int (length xs) \<le> maxSize p \<longrightarrow>
          fst (acquireMany (releaseAll p xs) args) = rev xs)
     \<and> created (snd (acquire p a r s rid now)) = (if pool p = [] then created p + 1 else created p)
     \<and> (pool p \<noteq> [] \<longrightarrow> fst (acquire p a r s rid now) = last (pool p)
           \<and> length (heap (snd (acquire p a r s rid now))) = length (heap p))
     \<and> (pool p = [] \<longrightarrow> fst (acquire p a r s rid now) = length (heap p)
           \<and> length (heap (snd (acquire p a r s rid now))) = Suc (length (heap p)))"
proof -
  have pl: "pool (releaseAll p xs) = pool p @ take (nat (maxSize p - int (length (pool p)))) xs"
    using assms(1,2) by (rule releaseAll_pool)
  have "length (pool (releaseAll p xs))
      = length (pool p) + min (length xs) (nat (maxSize p - int (length (pool p))))"
    by (simp add: pl)
  then have enough: "length args \<le> length (pool (releaseAll p xs))"
    using assms(3,4,5) by arith
  note pops = acquireMany_pops [OF enough]
  have room: "fst (acquireMany (releaseAll p xs) args) = rev xs"
    if "int (length (pool p)) + int (length xs) \<le> maxSize p"
  proof -
    from that have "length xs \<le> nat (maxSize p - int (length (pool p)))" by simp
    then have "pool (releaseAll p xs) = pool p @ xs" by (simp add: pl)
    then show ?thesis using pops assms(5) by simp
  qed
  show ?thesis
    using pops room assms(5)
    by (simp add: acquire_created acquire_fst acquire_length_heap)
qed

theorem pool_reuse_witness:
  "distinct [2, 0 :: nat]
   \<and> 2 < length (heap threeAcquired) \<and> inUse (heap threeAcquired ! 2) = Some True
   \<and> 0 < length (heap threeAcquired) \<and> inUse (heap threeAcquired ! 0) = Some True
   \<and> int (length (pool threeAcquired)) \<le> maxSize threeAcquired
   \<and> int (length [2, 0 :: nat]) \<le> maxSize threeAcquired
   \<and> int (length (pool threeAcquired)) + int (length [2, 0 :: nat]) \<le> maxSize threeAcquired
   \<and> fst (acquireMany (releaseAll threeAcquired [2, 0]) [demoArgs, demoArgs]) = [0, 2]
   \<and> created (snd (acquireMany (releaseAll threeAcquired [2, 0]) [demoArgs, demoArgs])) = 3"
proof -
  have d: "distinct [2, 0 :: nat]" by simp
  have u: "\<forall>x \<in> set [2, 0]. x < length (heap threeAcquired) \<and> inUse (heap threeAcquired ! x) = Some True"
    by (simp add: threeAcquired_def demo_defs)
  have b: "int (length (pool threeAcquired)) \<le> maxSize threeAcquired"
    by (simp add: threeAcquired_def demo_defs)
  have n: "int (length [2, 0 :: nat]) \<le> maxSize threeAcquired"
    by (simp add: threeAcquired_def demo_defs)
  have l: "length [demoArgs, demoArgs] = length [2, 0 :: nat]" by simp
  have rm: "int (length (pool threeAcquired)) + int (length [2, 0 :: nat]) \<le> maxSize threeAcquired"
    by (simp add: threeAcquired_def demo_defs)
  have c: "created threeAcquired = 3"
    by (simp add: threeAcquired_def demo_defs)
  have e: "pool (releaseAll threeAcquired [2, 0]) = [2, 0]"
    by (simp add: threeAcquired_def demo_defs)
  show ?thesis
    using d u b n rm c e
      pool_reuse [of "[2, 0]" threeAcquired "[demoArgs, demoArgs]" demoApp demoReq demoRes "''n''" 9,
        OF d u b n l]
    by simp
qed

text \<open>
  Claim C3 as stated fails when the free-list is already full: the released
  context 1 is discarded, and the next acquisition returns context 0.
\<close>

theorem pool_reuse_full_counterexample:
  "inUse (heap fullPoolInUse ! 1) = Some True
   \<and> int (length [1 :: nat]) \<le> maxSize fullPoolInUse
   \<and> fst (acquireMany (releaseAll fullPoolInUse [1]) [demoArgs]) = [0]"
  by (simp add: fullPoolInUse_def demoArgs_def demo_defs)

section \<open>Properties of the router middleware\<close>

lemma fillParams_dom:
  "dom (fillParams obj names i m) = dom obj \<union> (set names - {''__proto__''})"
  by (induction names arbitrary: obj i) (auto simp: assignProp_def split: if_splits)

lemma fillParams_other:
  "n \<notin> set names \<Longrightarrow> fillParams obj names i m n = obj n"
  by (induction names arbitrary: obj i) (auto simp: assignProp_def)

lemma fillParams_proto:
  "fillParams obj names i m ''__proto__'' = obj ''__proto__''"
  by (induction names arbitrary: obj i) (auto simp: assignProp_def)

lemma fillParams_value:
  "j < length names \<Longrightarrow> \<forall>l. j < l \<and> l < length names \<longrightarrow> names ! l \<noteq> names ! j \<Longrightarrow>
   names ! j \<noteq> ''__proto__'' \<Longrightarrow>
   fillParams obj names i m (names ! j) = Some (matchAt m (i + j + 1))"
proof (induction names arbitrary: obj i j)
  case Nil
  then show ?case by simp
next
  case (Cons n names)
  show ?case
  proof (cases j)
    case 0
    have "n \<notin> set names"
    proof
      assume "n \<in> set names"
      then obtain l where "l < length names" "names ! l = n"
        by (auto simp: in_set_conv_nth)
      then show False using Cons.prems(2) 0 by (auto dest: spec [of _ "Suc l"])
    qed
    then show ?thesis using 0 Cons.prems(3) by (simp add: fillParams_other assignProp_def)
  next
    case (Suc j')
    have a: "j' < length names" using Cons.prems(1) Suc by simp
    have c: "names ! j' \<noteq> ''__proto__''" using Cons.prems(3) Suc by simp
    have b: "\<forall>l. j' < l \<and> l < length names \<longrightarrow> names ! l \<noteq> names ! j'"
    proof (intro allI impI)
      fix l assume "j' < l \<and> l < length names"
      then show "names ! l \<noteq> names ! j'"
        using Cons.prems(2) Suc by (auto dest: spec [of _ "Suc l"])
    qed
    have "fillParams (assignProp obj n (matchAt m (i + 1))) names (i + 1) m (names ! j')
        = Some (matchAt m (i + 1 + j' + 1))"
      using a b c by (rule Cons.IH)
    then show ?thesis
      using Suc by simp
  qed
qed

lemma matchLoop_result:
  "params ctx = None \<Longrightarrow> ctx_method ctx = mth \<Longrightarrow> ctx_path ctx = pth \<Longrightarrow>
   params (fst (matchLoop rs ctx)) =
     (case firstMatch rs mth pth of
        None \<Rightarrow> None
      | Some route \<Rightarrow>
          (if paramNames route = [] then None
           else Some (fillParams Map.empty (paramNames route) 0 (the (regex route pth)))))
   \<and> snd (matchLoop rs ctx) =
     (case firstMatch rs mth pth of
        None \<Rightarrow> CallNext
      | Some route \<Rightarrow> RunHandler (handler route))"
  by (induction rs) (auto simp: firstMatch_def routeMatches_def Let_def split: option.splits)

lemma matchLoopNested_result:
  "params ctx = None \<Longrightarrow> ctx_method ctx = mth \<Longrightarrow> ctx_path ctx = pth \<Longrightarrow>
   params (fst (matchLoopNested rs ctx)) =
     (case firstMatch rs mth pth of
        None \<Rightarrow> None
      | Some route \<Rightarrow>
          (if paramNames route = [] then None
           else Some (fillParams Map.empty (paramNames route) 0 (the (regex route pth)))))
   \<and> snd (matchLoopNested rs ctx) =
     (case firstMatch rs mth pth of
        None \<Rightarrow> CallNext
      | Some route \<Rightarrow> RunHandler (handler route))"
  by (induction rs) (auto simp: firstMatch_def routeMatches_def Let_def split: option.splits)

lemma routes_result:
  assumes "f = routes \<or> f = routesNested"
  shows "params (fst (f router ctx)) =
     (case firstMatch (routeList router) (ctx_method ctx) (ctx_path ctx) of
        None \<Rightarrow> None
      | Some route \<Rightarrow>
          (if paramNames route = [] then None
           else Some (fillParams Map.empty (paramNames route) 0 (the (regex route (ctx_path ctx))))))
   \<and> snd (f router ctx) =
     (case firstMatch (routeList router) (ctx_method ctx) (ctx_path ctx) of
        None \<Rightarrow> CallNext
      | Some route \<Rightarrow> RunHandler (handler route))"
proof -
  let ?c = "case matched (ctx\<lparr>params := None, ctx_router := Some (router_id router)\<rparr>) of
             None \<Rightarrow> ctx\<lparr>params := None, ctx_router := Some (router_id router), matched := Some []\<rparr>
           | Some _ \<Rightarrow> ctx\<lparr>params := None, ctx_router := Some (router_id router)\<rparr>"
  have a: "params (ctx\<lparr>params := None\<rparr>) = None"
    "ctx_method (ctx\<lparr>params := None\<rparr>) = ctx_method ctx"
    "ctx_path (ctx\<lparr>params := None\<rparr>) = ctx_path ctx"
    by simp_all
  have b: "params ?c = None" "ctx_method ?c = ctx_method ctx" "ctx_path ?c = ctx_path ctx"
    by (simp_all split: option.splits)
  from assms show ?thesis
  proof
    assume "f = routes"
    then show ?thesis
      using matchLoop_result [OF a, of "routeList router"] by (simp add: routes_def)
  next
    assume "f = routesNested"
    then show ?thesis
      using matchLoopNested_result [OF b, of "routeList router"]
      by (simp add: routesNested_def Let_def)
  qed
qed

lemma firstMatch_Some:
  "firstMatch rs m p = Some route \<Longrightarrow> route \<in> set rs \<and> rt_method route = m \<and> regex route p \<noteq> None"
  by (auto simp: firstMatch_def routeMatches_def find_Some_iff)

text \<open>
  What the middleware does, in src/router.ts and in the variant with nested
  routers.  Its result does not depend on the value that \<open>ctx.params\<close> had
  before.  When no route matches, \<open>params\<close> is undefined and \<open>next\<close> is
  called.  Otherwise the handler of the first matching route runs;
  \<open>params\<close> is undefined when that route has no parameter names, and else is
  an object whose own properties are the route's parameter names other than
  \<open>__proto__\<close>, each mapped to the capture group of its position in the match
  of the current path (for a name that occurs more than once, the position of
  its last occurrence).
\<close>

lemma routes_behaviour:
  assumes "f = routes \<or> f = routesNested"
  shows "f router (ctx\<lparr>params := old\<rparr>) = f router ctx
   \<and> (firstMatch (routeList router) (ctx_method ctx) (ctx_path ctx) = None \<longrightarrow>
        params (fst (f router ctx)) = None \<and> snd (f router ctx) = CallNext)
   \<and> (\<forall>route. firstMatch (routeList router) (ctx_method ctx) (ctx_path ctx) = Some route \<longrightarrow>
        snd (f router ctx) = RunHandler (handler route)
        \<and> (paramNames route = [] \<longrightarrow> params (fst (f router ctx)) = None)
        \<and> (paramNames route \<noteq> [] \<longrightarrow>
             (\<exists>obj m. regex route (ctx_path ctx) = Some m
                \<and> params (fst (f router ctx)) = Some obj
                \<and> dom obj = set (paramNames route) - {''__proto__''}
                \<and> (\<forall>j < length (paramNames route).
                      (\<forall>l. j < l \<and> l < length (paramNames route)
                           \<longrightarrow> paramNames route ! l \<noteq> paramNames route ! j)
                      \<and> paramNames route ! j \<noteq> ''__proto__''
                      \<longrightarrow> obj (paramNames route ! j) = Some (matchAt m (j + 1))))))"
proof (intro conjI allI impI)
  show "f router (ctx\<lparr>params := old\<rparr>) = f router ctx"
    using assms by (auto simp: routes_def routesNested_def)
next
  assume n: "firstMatch (routeList router) (ctx_method ctx) (ctx_path ctx) = None"
  show "params (fst (f router ctx)) = None"
    using routes_result [OF assms, of router ctx] n by simp
  show "snd (f router ctx) = CallNext"
    using routes_result [OF assms, of router ctx] n by simp
next
  fix route
  assume s: "firstMatch (routeList router) (ctx_method ctx) (ctx_path ctx) = Some route"
  show "snd (f router ctx) = RunHandler (handler route)"
    using routes_result [OF assms, of router ctx] s by simp
  {
    assume "paramNames route = []"
    then show "params (fst (f router ctx)) = None"
      using routes_result [OF assms, of router ctx] s by simp
  }
  {
    assume ne: "paramNames route \<noteq> []"
    from firstMatch_Some [OF s] obtain m where m: "regex route (ctx_path ctx) = Some m"
      by auto
    have p: "params (fst (f router ctx)) = Some (fillParams Map.empty (paramNames route) 0 m)"
      using routes_result [OF assms, of router ctx] s ne m by simp
    have d: "dom (fillParams Map.empty (paramNames route) 0 m)
               = set (paramNames route) - {''__proto__''}"
      by (simp add: fillParams_dom)
    have v: "\<forall>j < length (paramNames route).
                (\<forall>l. j < l \<and> l < length (paramNames route)
                     \<longrightarrow> paramNames route ! l \<noteq> paramNames route ! j)
                \<and> paramNames route ! j \<noteq> ''__proto__''
                \<longrightarrow> fillParams Map.empty (paramNames route) 0 m (paramNames route ! j)
                      = Some (matchAt m (j + 1))"
      using fillParams_value [of _ "paramNames route" Map.empty 0 m] by simp
    show "\<exists>obj m. regex route (ctx_path ctx) = Some m
                \<and> params (fst (f router ctx)) = Some obj
                \<and> dom obj = set (paramNames route) - {''__proto__''}
                \<and> (\<forall>j < length (paramNames route).
                      (\<forall>l. j < l \<and> l < length (paramNames route)
                           \<longrightarrow> paramNames route ! l \<noteq> paramNames route ! j)
                      \<and> paramNames route ! j \<noteq> ''__proto__''
                      \<longrightarrow> obj (paramNames route ! j) = Some (matchAt m (j + 1)))"
      using m p d v by blast
  }
qed

lemma first_request:
  "routesNested demoRouter pooledCtx =
     (pooledCtx\<lparr>params := Some [''id'' \<mapsto> Some ''42''], ctx_router := Some 1,
                matched := Some [], matchedRoute := Some ''/users/:id'',
                ctx_request := Some (Some [''id'' \<mapsto> Some ''42''])\<rparr>,
      RunHandler 11)"
  by (simp add: routesNested_def demoRouter_def pooledCtx_def usersIdRegex_def Let_def
      assignProp_def matchAt_def)

text \<open>
  Claim C10 fails on the code at two inputs.  For the route pattern
  \<open>/:__proto__\<close> and the request GET /abc, the route matches and has the
  parameter name \<open>__proto__\<close>, yet the object assigned to \<open>ctx.params\<close> has no
  property at all.  In the variant with nested routers, a pooled context that
  served GET /users/42 and is reused for GET /nomatch reaches \<open>next\<close> with
  \<open>ctx.params\<close> undefined, but \<open>ctx.request.params\<close> still maps \<open>id\<close> to
  \<open>42\<close> and \<open>ctx._matchedRoute\<close> still names the route of the earlier request.
\<close>

theorem routes_failing_inputs:
  "paramNames (hd (routeList protoRouter)) = [''__proto__'']
   \<and> snd (routes protoRouter protoCtx) = RunHandler 20
   \<and> params (fst (routes protoRouter protoCtx)) = Some Map.empty
   \<and> snd (routesNested protoRouter protoCtx) = RunHandler 20
   \<and> params (fst (routesNested protoRouter protoCtx)) = Some Map.empty
   \<and> ctx_path secondRequestCtx = ''/nomatch''
   \<and> snd (routesNested demoRouter secondRequestCtx) = CallNext
   \<and> params (fst (routesNested demoRouter secondRequestCtx)) = None
   \<and> ctx_request (fst (routesNested demoRouter secondRequestCtx))
        = Some (Some [''id'' \<mapsto> Some ''42''])
   \<and> matchedRoute (fst (routesNested demoRouter secondRequestCtx)) = Some ''/users/:id''"
proof -
  have a: "routes protoRouter protoCtx = (protoCtx\<lparr>params := Some Map.empty\<rparr>, RunHandler 20)"
    by (simp add: routes_def protoRouter_def protoCtx_def oneSegmentRegex_def assignProp_def)
  have b: "routesNested protoRouter protoCtx =
      (protoCtx\<lparr>params := Some Map.empty, ctx_router := Some 2, matched := Some [],
                matchedRoute := Some ''/:__proto__'', ctx_request := Some (Some Map.empty)\<rparr>,
       RunHandler 20)"
    by (simp add: routesNested_def protoRouter_def protoCtx_def oneSegmentRegex_def
        assignProp_def Let_def)
  have c: "secondRequestCtx =
      pooledCtx\<lparr>ctx_path := ''/nomatch'', params := Some [''id'' \<mapsto> Some ''42''],
                ctx_router := Some 1, matched := Some [], matchedRoute := Some ''/users/:id'',
                ctx_request := Some (Some [''id'' \<mapsto> Some ''42''])\<rparr>"
    by (simp add: secondRequestCtx_def first_request)
  have d: "routesNested demoRouter secondRequestCtx =
      (secondRequestCtx\<lparr>params := None\<rparr>, CallNext)"
    by (simp add: c routesNested_def demoRouter_def pooledCtx_def usersIdRegex_def Let_def)
  have e: "paramNames (hd (routeList protoRouter)) = [''__proto__'']"
    by (simp add: protoRouter_def)
  show ?thesis
    by (simp add: a b d e) (simp add: c)
qed

section \<open>Properties of the dispatcher\<close>

lemma exec_Emits: "exec ms c (map Emit es @ body) t = exec ms c body (t @ es)"
  by (induction es arbitrary: t) simp_all


lemma exec_Next:
  "exec ms False (Next # body) t =
     (case dispatch ms t of
        (t1, Some err) \<Rightarrow> (t1, Some err)
      | (t1, None) \<Rightarrow> exec ms True body t1)"
  by (cases ms) (auto simp: dispatch_def)

lemma exec_Next_again [simp]: "exec ms True (Next # body) t = (t, Some MultipleNextInvocationError)"
  by simp

declare exec.simps(4) [simp del]

lemmas exec_eval = exec_Next exec_Next_again dispatch_def








lemma exec_append:
  "exec ms c (a @ b) t =
     (case exec ms c a t of
        (t1, Some err) \<Rightarrow> (t1, Some err)
      | (t1, None) \<Rightarrow> exec ms (c \<or> Next \<in> set a) b t1)"
proof (induction a arbitrary: c t)
  case Nil
  show ?case by simp
next
  case (Cons st a)
  show ?case
  proof (cases st)
    case (Emit e)
    show ?thesis unfolding Emit by (simp add: Cons.IH split: prod.splits option.splits)
  next
    case Next
    show ?thesis
    proof (cases c)
      case True
      then show ?thesis unfolding Next by simp
    next
      case False
      then show ?thesis unfolding Next
        by (simp add: exec_Next Cons.IH split: prod.splits option.splits)
    qed
  next
    case (Throw x)
    show ?thesis unfolding Throw by simp
  qed
qed

lemma exec_second_Next:
  assumes "Next \<in> set first" and "exec ms False first t = (t1, None)"
  shows "exec ms False (first @ Next # rest) t = (t1, Some MultipleNextInvocationError)"
  using assms by (simp add: exec_append)

lemma dispatch_Cons: "dispatch (m # ms) t = exec ms False m t"
  by (simp add: dispatch_def)

lemma dispatch_upstream_failure:
  "dispatch (bad # ms) (t @ concat (map fst ups)) = (t1, Some err) \<Longrightarrow>
   dispatch (map (\<lambda>(pre, rest). map Emit pre @ Next # rest) ups @ bad # ms) t = (t1, Some err)"
proof (induction ups arbitrary: t)
  case Nil
  then show ?case by simp
next
  case (Cons up ups)
  obtain pre rest where up: "up = (pre, rest)" by (cases up)
  from Cons.prems have "dispatch (bad # ms) ((t @ pre) @ concat (map fst ups)) = (t1, Some err)"
    by (simp add: up)
  from Cons.IH [OF this] show ?case
    by (simp add: up dispatch_Cons exec_Emits exec_Next)
qed

text \<open>
  Claim C2.  Let a middleware reach a \<open>next()\<close> after the part \<open>first\<close> of its
  body, which has invoked \<open>next\<close> already and has run to its end without
  failure, leaving the trace \<open>t1\<close>.  Then the dispatch of the whole chain,
  whose upstream middleware each await \<open>next()\<close> after some actions, fails with
  \<open>MultipleNextInvocationError\<close>, which differs from every error a middleware
  throws; the trace of the failed dispatch is \<open>t1\<close>, so the second
  invocation has run nothing of the downstream chain again, and nothing runs
  after the failure.
\<close>

theorem double_next_fails:
  assumes "Next \<in> set first"
    and "exec ms False first (t @ concat (map fst ups)) = (t1, None)"
  shows "dispatch (map (\<lambda>(pre, rest). map Emit pre @ Next # rest) ups
                     @ (first @ Next # rest') # ms) t
           = (t1, Some MultipleNextInvocationError)
     \<and> MultipleNextInvocationError \<noteq> MiddlewareError x"
proof -
  have "dispatch ((first @ Next # rest') # ms) (t @ concat (map fst ups))
          = (t1, Some MultipleNextInvocationError)"
    using exec_second_Next [OF assms] by (simp add: dispatch_Cons)
  then show ?thesis
    by (simp add: dispatch_upstream_failure)
qed

theorem double_next_fails_witness:
  "Next \<in> set [Emit ''a1'', Next, Emit ''a2'']
   \<and> exec [[Emit ''b1'', Next, Emit ''b2''], [Emit ''c'']] False [Emit ''a1'', Next, Emit ''a2'']
        ([] @ concat (map fst [([''u1''], [Emit ''u2''])]))
       = ([''u1'', ''a1'', ''b1'', ''c'', ''b2'', ''a2''], None)
   \<and> dispatch [[Emit ''u1'', Next, Emit ''u2''],
                [Emit ''a1'', Next, Emit ''a2'', Next, Emit ''a3''],
                [Emit ''b1'', Next, Emit ''b2''], [Emit ''c'']] []
       = ([''u1'', ''a1'', ''b1'', ''c'', ''b2'', ''a2''], Some MultipleNextInvocationError)"
proof -
  have a: "Next \<in> set [Emit ''a1'', Next, Emit ''a2'']" by simp
  have b: "exec [[Emit ''b1'', Next, Emit ''b2''], [Emit ''c'']] False [Emit ''a1'', Next, Emit ''a2'']
        ([] @ concat (map fst [([''u1''], [Emit ''u2''])]))
       = ([''u1'', ''a1'', ''b1'', ''c'', ''b2'', ''a2''], None)"
    by (simp add: exec_eval)
  show ?thesis
    using a b double_next_fails [OF a b, of "[Emit ''a3'']" "x"]
    by simp
qed

end
